theory Spec2Isabelle
  imports Complex_Main "HOL-Library.Log_Nat"
begin

unbundle bit_operations_syntax

section \<open>Python primitives used by the scripts\<close>

text \<open>
  The scripts compute on Python's unbounded integers, modelled as \<open>int\<close>:
  \<open>%\<close> with a positive modulus is \<open>mod\<close>, \<open>& 0xFF\<close> is \<open>AND 255\<close>, \<open>>> 8\<close> is
  \<open>drop_bit 8\<close>, \<open><< 8\<close> is \<open>push_bit 8\<close> and \<open>~\<close> is \<open>NOT\<close>, all on two's-complement
  integers of unbounded width as in Python.
\<close>

datatype error = ValueError | CommException

text \<open>\<open>bytearray([...])\<close> raises ValueError unless every element is in \<open>range(0, 256)\<close>.\<close>

definition byte_ok :: "int \<Rightarrow> bool" where
  "byte_ok b = (0 \<le> b \<and> b < 256)"

definition bytearray :: "int list \<Rightarrow> error + int list" where
  "bytearray xs = (if list_all byte_ok xs then Inr xs else Inl ValueError)"

text \<open>\<open>packet.append(b)\<close> on a bytearray: the same range check on the new element.\<close>

definition bytearray_append :: "int list \<Rightarrow> int \<Rightarrow> error + int list" where
  "bytearray_append packet b = (if byte_ok b then Inr (packet @ [b]) else Inl ValueError)"

text \<open>The slice \<open>packet[2:-1]\<close>: the elements at indices \<open>2 \<le> i < len(packet) - 1\<close>.\<close>

definition slice_2_to_last :: "'a list \<Rightarrow> 'a list" where
  "slice_2_to_last packet = drop 2 (butlast packet)"

text \<open>The slice \<open>packet[2:]\<close>.\<close>

definition slice_2 :: "'a list \<Rightarrow> 'a list" where
  "slice_2 packet = drop 2 packet"

section \<open>Packets built with the closed checksum formula\<close>

text \<open>
  \<open>direct_motor_ping.test_motor_ping\<close> (and \<open>ping_motor\<close>, \<open>ping_all_motors\<close>,
  protocol 0 of \<open>leader_protocol_test.test_protocol\<close>):
  \<^verbatim>\<open>checksum = 0xFF - ((motor_id + 0x02 + 0x01) % 256)\<close>,
  \<^verbatim>\<open>ping_packet = bytearray([0xFF, 0xFF, motor_id, 0x02, 0x01, checksum])\<close>.
\<close>

definition ping_packet :: "int \<Rightarrow> error + int list" where
  "ping_packet motor_id =
     (let checksum = 0xFF - ((motor_id + 0x02 + 0x01) mod 256)
      in bytearray [0xFF, 0xFF, motor_id, 0x02, 0x01, checksum])"

text \<open>\<open>direct_reset_follower_motors.write_byte\<close>, the packet it sends.\<close>

definition write_byte_packet :: "int \<Rightarrow> int \<Rightarrow> int \<Rightarrow> error + int list" where
  "write_byte_packet motor_id address val =
     (let checksum = 0xFF - ((motor_id + 0x04 + 0x03 + address + val) mod 256)
      in bytearray [0xFF, 0xFF, motor_id, 0x04, 0x03, address, val, checksum])"

text \<open>\<open>direct_reset_follower_motors.write_word\<close>, the packet it sends.\<close>

definition write_word_packet :: "int \<Rightarrow> int \<Rightarrow> int \<Rightarrow> error + int list" where
  "write_word_packet motor_id address val =
     (let value_l = val AND 0xFF;
          value_h = (drop_bit 8 val) AND 0xFF;
          checksum = 0xFF - ((motor_id + 0x05 + 0x03 + address + value_l + value_h) mod 256)
      in bytearray [0xFF, 0xFF, motor_id, 0x05, 0x03, address, value_l, value_h, checksum])"

text \<open>\<open>direct_reset_follower_motors.read_word\<close>, the request it sends.\<close>

definition read_word_packet :: "int \<Rightarrow> int \<Rightarrow> int \<Rightarrow> error + int list" where
  "read_word_packet motor_id address len =
     (let checksum = 0xFF - ((motor_id + 0x04 + 0x02 + address + len) mod 256)
      in bytearray [0xFF, 0xFF, motor_id, 0x04, 0x02, address, len, checksum])"

section \<open>Packets built with the slice checksum\<close>

text \<open>
  The loop \<^verbatim>\<open>checksum = 0; for b in packet[2:-1]: checksum += b\<close> followed by
  \<^verbatim>\<open>(~checksum) & 0xFF\<close>.
\<close>

definition slice_checksum :: "int list \<Rightarrow> int" where
  "slice_checksum packet = (NOT (sum_list (slice_2_to_last packet))) AND 0xFF"

text \<open>
  \<open>leader_diagnostics\<close>: the packet is built without its checksum,
  \<^verbatim>\<open>checksum = (~(sum(ping_packet[2:]) % 256)) & 0xFF\<close> is computed over the whole
  tail and appended.
\<close>

definition diagnostics_ping_packet :: "int \<Rightarrow> error + int list" where
  "diagnostics_ping_packet motor_id =
     (case bytearray [0xFF, 0xFF, motor_id, 0x02, 0x01] of
        Inl e \<Rightarrow> Inl e
      | Inr pkt \<Rightarrow>
          (let checksum = (NOT (sum_list (slice_2 pkt) mod 256)) AND 0xFF
           in bytearray_append pkt checksum))"

text \<open>
  Protocol 1 of \<open>leader_protocol_test.test_protocol\<close>: the packet is built with a
  placeholder 0x00 in the last position, which is then overwritten
  (\<^verbatim>\<open>ping_packet[-1] = (~checksum) & 0xFF\<close>).
\<close>

definition protocol1_ping_packet :: "int \<Rightarrow> error + int list" where
  "protocol1_ping_packet motor_id =
     (case bytearray [0xFF, 0xFF, motor_id, 0x02, 0x01, 0x00] of
        Inl e \<Rightarrow> Inl e
      | Inr pkt \<Rightarrow>
          (let checksum = slice_checksum pkt
           in if byte_ok checksum
              then Inr (pkt[length pkt - 1 := checksum])
              else Inl ValueError))"

text \<open>
  \<open>FollowerArmController.set_position\<close>: the guards, the clamp, and the packet written
  to the serial port. \<open>None\<close> is the early \<open>return False\<close> before anything is sent.
  The packet is built without a placeholder and the checksum is appended.
\<close>

definition clamp_position :: "int \<Rightarrow> int" where
  "clamp_position position = max 0 (min 4095 position)"

definition set_position_packet :: "int \<Rightarrow> int \<Rightarrow> error + int list" where
  "set_position_packet motor_id position =
     (case bytearray [0xFF, 0xFF, motor_id, 0x05, 0x03, 42,
                      position AND 0xFF, (drop_bit 8 position) AND 0xFF] of
        Inl e \<Rightarrow> Inl e
      | Inr write_packet \<Rightarrow> bytearray_append write_packet (slice_checksum write_packet))"

definition set_position :: "bool \<Rightarrow> int \<Rightarrow> int \<Rightarrow> (error + int list) option" where
  "set_position self_connected motor_id position =
     (if \<not> self_connected then None
      else if motor_id < 1 \<or> motor_id > 6 then None
      else Some (set_position_packet motor_id (clamp_position position)))"

section \<open>The fields of a packet\<close>

text \<open>
  The layout every builder above follows, from the comments of the source
  (\<^verbatim>\<open>0xFF 0xFF ID LENGTH INSTRUCTION PARAM1 PARAM2 ... CHECKSUM\<close>): the byte at index 2
  is the id, at index 3 the length, at index 4 the instruction, the last byte the
  checksum and the bytes between are the parameters.
\<close>

definition packet_field_sum :: "int list \<Rightarrow> int" where
  "packet_field_sum packet = sum_list (drop 2 packet)"

definition checksum_valid :: "int list \<Rightarrow> bool" where
  "checksum_valid packet = (packet_field_sum packet mod 256 = 0xFF)"

section \<open>Recognising a reply\<close>

text \<open>
  The serial port is modelled by the bytes waiting in its input buffer when the script
  looks: \<open>ser.in_waiting\<close> is their number, truthy when there is at least one, and
  \<open>ser.read(ser.in_waiting)\<close> returns them.

  The test applied to a reply by \<open>ping_motor\<close>, \<open>ping_all_motors\<close> and the write
  functions; Python's \<open>and\<close> evaluates the indexing only after the length test.
\<close>

definition reply_ok :: "int \<Rightarrow> int list \<Rightarrow> bool" where
  "reply_ok motor_id response =
     (length response \<ge> 6 \<and> response ! 0 = 0xFF \<and> response ! 1 = 0xFF
      \<and> response ! 2 = motor_id)"

text \<open>\<open>direct_reset_follower_motors.ping_motor\<close>, after the packet is sent.\<close>

definition ping_motor :: "int \<Rightarrow> int list \<Rightarrow> bool" where
  "ping_motor motor_id waiting =
     (if waiting \<noteq> [] then
        (let response = waiting in
         if reply_ok motor_id response then True else False)
      else False)"

text \<open>
  \<open>so101_direct_teleoperation.ping_all_motors\<close>, the follower loop in direct mode:
  whether \<open>follower_success\<close> is incremented for this motor.
\<close>

definition ping_all_motors_follower :: "int \<Rightarrow> int list \<Rightarrow> bool" where
  "ping_all_motors_follower motor_id waiting =
     (if waiting \<noteq> [] then
        (let response = waiting in
         if reply_ok motor_id response then True else False)
      else False)"

text \<open>
  \<open>leader_protocol_test.test_protocol\<close>: whether SUCCESS is printed for this motor
  (\<^verbatim>\<open># Simplified check if we got any response\<close>, \<^verbatim>\<open>if len(response) > 0\<close>).
\<close>

definition test_protocol_success :: "int \<Rightarrow> int list \<Rightarrow> bool" where
  "test_protocol_success motor_id waiting =
     (if waiting \<noteq> [] then
        (let response = waiting in
         if length response > 0 then True else False)
      else False)"

text \<open>
  The condition of the specification, stated on the shape of the byte sequence: it starts
  with 0xFF 0xFF, its third byte is the queried id, and it has at least 6 bytes.
\<close>

definition valid_ping_reply :: "int \<Rightarrow> int list \<Rightarrow> bool" where
  "valid_ping_reply motor_id bs =
     (take 2 bs = [0xFF, 0xFF] \<and> take 1 (drop 2 bs) = [motor_id] \<and> length bs \<ge> 6)"

section \<open>Words on the wire\<close>

text \<open>\<open>write_word\<close>: \<^verbatim>\<open>value_l = value & 0xFF\<close>, \<^verbatim>\<open>value_h = (value >> 8) & 0xFF\<close>.\<close>

definition split_word :: "int \<Rightarrow> int \<times> int" where
  "split_word val = (val AND 0xFF, (drop_bit 8 val) AND 0xFF)"

text \<open>\<open>read_word\<close>, \<open>test_follower_arm\<close>: \<^verbatim>\<open>value = (value_h << 8) + value_l\<close>.\<close>

definition join_word :: "int \<Rightarrow> int \<Rightarrow> int" where
  "join_word value_l value_h = push_bit 8 value_h + value_l"

text \<open>
  \<open>direct_reset_follower_motors.read_word\<close>, after the request is sent: the value and the
  success flag it returns.
\<close>

definition read_word :: "int \<Rightarrow> int list \<Rightarrow> int \<times> bool" where
  "read_word motor_id waiting =
     (if waiting \<noteq> [] then
        (let response = waiting in
         if length response \<ge> 8 \<and> response ! 0 = 0xFF \<and> response ! 1 = 0xFF
            \<and> response ! 2 = motor_id
         then (join_word (response ! 5) (response ! 6), True)
         else (0, False))
      else (0, False))"

text \<open>
  Modelled from the spec: Encode of section 4.1. The scripts build every packet inline;
  no function of the source takes an instruction and a parameter list. The packet is
  \<^verbatim>\<open>[0xFF,0xFF,id,length,instruction,...params,checksum]\<close> with
  \<^verbatim>\<open>checksum = 0xFF - ((id+length+instruction+sum(params)) mod 256)\<close>; the length byte
  counts the instruction, the parameters and the checksum, as in the packets of the
  source (2 for a ping, 4 for two parameters, 5 for three).
\<close>

definition encode :: "int \<Rightarrow> int \<Rightarrow> int list \<Rightarrow> error + int list" where
  "encode motor_id instruction params =
     (let len = int (length params) + 2;
          checksum = 0xFF - ((motor_id + len + instruction + sum_list params) mod 256)
      in bytearray ([0xFF, 0xFF, motor_id, len, instruction] @ params @ [checksum]))"

text \<open>
  Modelled from the spec: Decode of section 4.1, which validates the header 0xFF 0xFF and
  the echoed id and extracts the parameter bytes; the scripts parse replies inline. The
  instruction is the byte after the length, and the length byte says how many parameter
  bytes follow it. \<open>None\<close> is a rejected byte sequence.
\<close>

definition decode :: "int \<Rightarrow> int list \<Rightarrow> (int \<times> int \<times> int list) option" where
  "decode motor_id bs =
     (if length bs \<ge> 6 \<and> bs ! 0 = 0xFF \<and> bs ! 1 = 0xFF \<and> bs ! 2 = motor_id
      then Some (bs ! 2, bs ! 4, take (nat (bs ! 3 - 2)) (drop 5 bs))
      else None)"

text \<open>
  Modelled from the spec: the valid (id, instruction, params) of section 8 are those that
  fit the packet, every field a byte and the length byte at most 255.
\<close>

definition valid_fields :: "int \<Rightarrow> int \<Rightarrow> int list \<Rightarrow> bool" where
  "valid_fields motor_id instruction params =
     (byte_ok motor_id \<and> byte_ok instruction \<and> list_all byte_ok params
      \<and> length params + 2 < 256)"

section \<open>Goal positions\<close>

text \<open>Python's \<open>int(x)\<close> on a float truncates towards zero.\<close>

definition py_int :: "real \<Rightarrow> int" where
  "py_int x = (if 0 \<le> x then \<lfloor>x\<rfloor> else \<lceil>x\<rceil>)"

text \<open>
  \<open>so101_direct_teleoperation.main\<close>:
  \<^verbatim>\<open>[(int(pos) + offset) % 4096 for pos, offset in zip(smoothed_positions, position_offsets)]\<close>.
\<close>

definition follower_positions :: "real list \<Rightarrow> int list \<Rightarrow> int list" where
  "follower_positions smoothed_positions position_offsets =
     map (\<lambda>(pos, offset). (py_int pos + offset) mod 4096)
         (zip smoothed_positions position_offsets)"

text \<open>
  \<open>set_follower_positions\<close>, SDK mode: \<^verbatim>\<open>max(0, min(4095, int(position)))\<close>; its callers
  pass integers, on which \<open>int\<close> is the identity.
\<close>

definition safe_position :: "int \<Rightarrow> int" where
  "safe_position position = max 0 (min 4095 position)"

section \<open>The joint-limit gate of the percent-move script\<close>

text \<open>
  \<open>move_motors_percent.check_joint_limits\<close>. \<open>motors_bus.read(...)[0]\<close> belongs to the
  motor bus library: each read is given by its outcome, \<open>Inl\<close> when it raises. The load
  is read only when the two range tests pass.
\<close>

definition check_joint_limits :: "(error + int) \<Rightarrow> (error + int) \<Rightarrow> int \<Rightarrow> bool" where
  "check_joint_limits present_position present_load target_position =
     (case present_position of
        Inl e \<Rightarrow> False
      | Inr current_pos \<Rightarrow>
          (let change = \<bar>current_pos - target_position\<bar> in
           if change > 1024 then False
           else if target_position < 0 \<or> target_position > 4095 then False
           else (case present_load of
                   Inl e \<Rightarrow> True
                 | Inr current_load \<Rightarrow> if current_load > 200 then False else True)))"

section \<open>Reading the leader arm\<close>

text \<open>
  \<open>so101_direct_teleoperation.read_leader_positions\<close>. The SDK call
  \<open>read2ByteTxRx\<close> either raises or returns a position and a communication result;
  \<open>COMM_SUCCESS\<close> is the SDK's constant and \<open>getTxRxResult\<close> its function, both
  parameters here. The loop state is the list \<open>positions\<close> and the counter \<open>errors\<close>.
  The debug \<open>print\<close> calls are taken not to raise.
\<close>

datatype sdk_read = Raises | Returns int int

definition MOTOR_IDS :: "int list" where
  "MOTOR_IDS = [1, 2, 3, 4, 5, 6]"

definition read_leader_step ::
  "int \<Rightarrow> (int \<Rightarrow> sdk_read) \<Rightarrow> (int \<Rightarrow> error + string) \<Rightarrow> int list \<times> nat \<Rightarrow> int \<Rightarrow> int list \<times> nat" where
  "read_leader_step COMM_SUCCESS read2ByteTxRx getTxRxResult st motor_id =
     (case st of (positions, errors) \<Rightarrow>
        (case read2ByteTxRx motor_id of
           Raises \<Rightarrow> (positions @ [2048], errors + 1)
         | Returns position result \<Rightarrow>
             if result = COMM_SUCCESS then (positions @ [position], errors)
             else (case getTxRxResult result of
                     Inl e \<Rightarrow> (positions @ [2048], errors + 1)
                   | Inr error_msg \<Rightarrow> (positions @ [2048], errors + 1))))"

definition read_leader_positions ::
  "int \<Rightarrow> (int \<Rightarrow> sdk_read) \<Rightarrow> (int \<Rightarrow> error + string) \<Rightarrow> int list" where
  "read_leader_positions COMM_SUCCESS read2ByteTxRx getTxRxResult =
     fst (foldl (read_leader_step COMM_SUCCESS read2ByteTxRx getTxRxResult) ([], 0) MOTOR_IDS)"

text \<open>What one motor contributes: the measured position, or the centre value 2048.\<close>

definition leader_entry :: "int \<Rightarrow> (int \<Rightarrow> sdk_read) \<Rightarrow> int \<Rightarrow> int" where
  "leader_entry COMM_SUCCESS read2ByteTxRx motor_id =
     (case read2ByteTxRx motor_id of
        Raises \<Rightarrow> 2048
      | Returns position result \<Rightarrow> if result = COMM_SUCCESS then position else 2048)"

section \<open>The teleoperation flag and the lock\<close>

text \<open>
  \<open>so101_direct_teleoperation\<close> runs \<open>monitor_keyboard_input\<close> in a daemon thread beside
  the loop of \<open>main\<close>; both use the globals \<open>teleoperation_active\<close> and \<open>DEBUG_MODE\<close>
  and the global \<open>lock\<close>. Each thread is modelled by the events of one iteration of
  its loop, in program order: entering and leaving a \<open>with lock:\<close> block, and each read
  or write of the two globals. A call of another function of the script is one event
  \<open>Call\<close>; none of the called functions mentions \<open>teleoperation_active\<close>.
\<close>

datatype event =
  Acquire | Release | ReadActive | WriteActive | ReadDebug | WriteDebug | Call string

record globals =
  teleoperation_active :: bool
  DEBUG_MODE :: bool

text \<open>The first key of the \<open>if\<close>/\<open>elif\<close> chain that \<open>keyboard.is_pressed\<close> reports.\<close>

datatype key = Esc | Space | KeyR | KeyD | KeyC | KeyT | KeyP | NoKey

fun monitor_keyboard_input_iteration :: "key \<Rightarrow> globals \<Rightarrow> event list \<times> globals" where
  "monitor_keyboard_input_iteration Esc g = ([Call ''signal_handler''], g)"
| "monitor_keyboard_input_iteration Space g =
     ([Acquire, ReadActive, WriteActive, ReadActive, Release],
      g\<lparr>teleoperation_active := \<not> teleoperation_active g\<rparr>)"
| "monitor_keyboard_input_iteration KeyR g = ([Call ''reset_to_center''], g)"
| "monitor_keyboard_input_iteration KeyD g =
     ([Acquire, ReadDebug, WriteDebug, ReadDebug, Release],
      g\<lparr>DEBUG_MODE := \<not> DEBUG_MODE g\<rparr>)"
| "monitor_keyboard_input_iteration KeyC g = ([Call ''calibrate_offset''], g)"
| "monitor_keyboard_input_iteration KeyT g = ([Call ''test_follower_arm''], g)"
| "monitor_keyboard_input_iteration KeyP g = ([Call ''ping_all_motors''], g)"
| "monitor_keyboard_input_iteration NoKey g = ([], g)"

text \<open>
  One iteration of the loop of \<open>main\<close>. \<open>at_602\<close> are the globals when the flag is copied
  into \<open>current_teleoperation_active\<close> inside the \<open>with lock:\<close> block, \<open>at_633\<close> when the
  condition \<^verbatim>\<open>not DEBUG_MODE and teleoperation_active\<close> is evaluated (the other thread may
  have changed them in between); \<open>and\<close> reads its second operand only when the first is
  true. \<open>position_changed\<close> is the outcome of the threshold test on the smoothed
  positions.
\<close>

definition main_loop_iteration :: "globals \<Rightarrow> bool \<Rightarrow> globals \<Rightarrow> event list" where
  "main_loop_iteration at_602 position_changed at_633 =
     (let current_teleoperation_active = teleoperation_active at_602 in
      [Acquire, ReadActive, Release, Call ''read_leader_positions'']
      @ (if current_teleoperation_active \<and> position_changed
         then [Call ''set_follower_positions''] else [])
      @ [ReadDebug]
      @ (if \<not> DEBUG_MODE at_633
         then ReadActive # (if teleoperation_active at_633 then [Call ''print_status''] else [])
         else []))"

text \<open>
  Whether every read and write of \<open>teleoperation_active\<close> in a thread's events happens
  between that thread's \<open>Acquire\<close> and \<open>Release\<close>; \<open>held\<close> says whether the thread holds
  the lock before the first event.
\<close>

fun lock_guarded :: "bool \<Rightarrow> event list \<Rightarrow> bool" where
  "lock_guarded held [] = True"
| "lock_guarded held (Acquire # es) = lock_guarded True es"
| "lock_guarded held (Release # es) = lock_guarded False es"
| "lock_guarded held (ReadActive # es) = (held \<and> lock_guarded held es)"
| "lock_guarded held (WriteActive # es) = (held \<and> lock_guarded held es)"
| "lock_guarded held (ReadDebug # es) = lock_guarded held es"
| "lock_guarded held (WriteDebug # es) = lock_guarded held es"
| "lock_guarded held (Call f # es) = lock_guarded held es"

section \<open>Smoothing in double precision\<close>

text \<open>
  The smoothed positions are Python floats, IEEE-754 binary64. A finite double is a real
  number, and each arithmetic operation returns the exact result rounded to the nearest
  double, ties to the even significand. \<open>fl\<close> is that rounding: the value is taken in
  units of the smallest subnormal, \<open>2 ^ -1074\<close>; a value of more than 53 bits in these
  units loses its \<open>k\<close> lowest bits. Results beyond the largest double (an overflow to
  infinity) are outside the model; positions are 16-bit register values.
\<close>

definition round_half_even :: "real \<Rightarrow> int" where
  "round_half_even y =
     (let f = \<lfloor>y\<rfloor>; d = y - of_int f
      in if d < 1/2 then f else if 1/2 < d then f + 1 else if even f then f else f + 1)"

definition denorm_scale :: real where
  "denorm_scale = 2 ^ 1074"

definition fl :: "real \<Rightarrow> real" where
  "fl x =
     (let y = x * denorm_scale;
          k = nat (bitlen \<lfloor>\<bar>y\<bar>\<rfloor> - 53)
      in of_int (round_half_even (y / 2 ^ k)) * 2 ^ k / denorm_scale)"

text \<open>
  \<open>so101_direct_teleoperation.main\<close> (\<open>alpha = 0.2\<close>) and \<open>so101_teleoperation.main\<close>
  (\<open>alpha = 0.3\<close>): \<^verbatim>\<open>alpha * current + (1 - alpha) * smoothed\<close> for one motor. The
  literal is rounded to a double, the integer reading \<open>current\<close> is converted to a double,
  and each of the four operations rounds. \<open>smoothed\<close> is the previous value, a double.
\<close>

definition smooth :: "real \<Rightarrow> int \<Rightarrow> real \<Rightarrow> real" where
  "smooth alpha_literal current smoothed =
     (let alpha = fl alpha_literal
      in fl (fl (alpha * fl (of_int current)) + fl (fl (1 - alpha) * smoothed)))"

text \<open>The list comprehension over \<open>zip(leader_positions, smoothed_positions)\<close>.\<close>

definition smooth_positions :: "real \<Rightarrow> int list \<Rightarrow> real list \<Rightarrow> real list" where
  "smooth_positions alpha_literal leader_positions smoothed_positions =
     map (\<lambda>(current, smoothed). smooth alpha_literal current smoothed)
         (zip leader_positions smoothed_positions)"

section \<open>Arithmetic of bytes and checksums\<close>

lemma and_255_mod: "(x::int) AND 255 = x mod 256"
  using take_bit_eq_mask[of 8 x] by (simp add: take_bit_eq_mod mask_eq_exp_minus_1)

lemma not_and_255: "(NOT (x::int)) AND 255 = 255 - x mod 256"
proof -
  have a: "- x - 1 = (255 - x mod 256) + 256 * (- (x div 256) - 1)"
    using div_mult_mod_eq[of x 256] by (simp add: algebra_simps)
  have "0 \<le> x mod 256" "x mod 256 < 256" by simp_all
  then have b: "0 \<le> 255 - x mod 256" "255 - x mod 256 < 256" by linarith+
  have "(- x - 1) mod 256 = (255 - x mod 256) mod 256"
    by (subst a) (simp only: mod_mult_self2)
  also have "\<dots> = 255 - x mod 256" using b by (simp only: mod_pos_pos_trivial)
  finally show ?thesis unfolding and_255_mod not_int_def .
qed

lemma byte_ok_mod: "byte_ok (s mod 256)"
  by (simp add: byte_ok_def)

lemma byte_ok_closed_checksum: "byte_ok (255 - s mod 256)"
proof -
  have "0 \<le> s mod 256" "s mod 256 < 256" by simp_all
  then show ?thesis unfolding byte_ok_def by linarith
qed

lemma byte_ok_numerals: "byte_ok 255" "byte_ok 0" "byte_ok 1" "byte_ok 2" "byte_ok 3" "byte_ok 4" "byte_ok 5" "byte_ok 42"
  by (simp_all add: byte_ok_def)

lemma ping_packet_bytes:
  assumes "byte_ok motor_id"
  shows "ping_packet motor_id = Inr [255, 255, motor_id, 2, 1, 255 - (motor_id + 2 + 1) mod 256]"
  unfolding ping_packet_def bytearray_def Let_def
  using assms byte_ok_closed_checksum[of "motor_id + 2 + 1"] byte_ok_numerals by simp

lemma protocol1_bytes:
  assumes "byte_ok motor_id"
  shows "protocol1_ping_packet motor_id = Inr [255, 255, motor_id, 2, 1, 255 - (motor_id + 2 + 1) mod 256]"
proof -
  have b: "bytearray [255, 255, motor_id, 2, 1, 0] = Inr [255, 255, motor_id, 2, 1, 0]"
    unfolding bytearray_def using assms byte_ok_numerals by simp
  have c: "slice_checksum [255, 255, motor_id, 2, 1, 0] = 255 - (motor_id + 2 + 1) mod 256"
    unfolding slice_checksum_def slice_2_to_last_def not_and_255 by (simp add: add.commute)
  show ?thesis
    unfolding protocol1_ping_packet_def b using c byte_ok_closed_checksum[of "motor_id + 2 + 1"]
    by (simp add: Let_def)
qed


lemma diagnostics_ping_bytes:
  assumes "byte_ok motor_id"
  shows "diagnostics_ping_packet motor_id = ping_packet motor_id"
proof -
  have b: "bytearray [255, 255, motor_id, 2, 1] = Inr [255, 255, motor_id, 2, 1]"
    unfolding bytearray_def using assms byte_ok_numerals by simp
  have "(NOT (sum_list (slice_2 [255, 255, motor_id, 2, 1]) mod 256)) AND 255
        = 255 - (motor_id + 2 + 1) mod 256"
    unfolding slice_2_def not_and_255 by (simp add: algebra_simps)
  then show ?thesis
    unfolding diagnostics_ping_packet_def b ping_packet_bytes[OF assms]
    using byte_ok_closed_checksum[of "motor_id + 2 + 1"]
    by (simp add: Let_def bytearray_append_def)
qed

lemma sum_closed_checksum: "(s + (255 - s mod 256)) mod 256 = (255::int)"
proof -
  have "s + (255 - s mod 256) = 255 + 256 * (s div 256)"
    using div_mult_mod_eq[of s 256] by (simp add: algebra_simps)
  then show ?thesis by (simp only: mod_mult_self2) simp
qed

lemma bytearray_Inr: "bytearray xs = Inr pkt \<Longrightarrow> pkt = xs"
  by (simp add: bytearray_def split: if_splits)

lemma checksum_valid_closed:
  "checksum_valid (a # b # fs @ [255 - sum_list fs mod 256])"
proof -
  have "packet_field_sum (a # b # fs @ [255 - sum_list fs mod 256])
        = sum_list fs + (255 - sum_list fs mod 256)"
    by (simp add: packet_field_sum_def)
  then show ?thesis
    unfolding checksum_valid_def using sum_closed_checksum[of "sum_list fs"] by simp
qed

lemma ping_packet_checksum_valid:
  assumes "ping_packet motor_id = Inr pkt" shows "checksum_valid pkt"
proof -
  have "pkt = 255 # 255 # [motor_id, 2, 1] @ [255 - sum_list [motor_id, 2, 1] mod 256]"
    using assms unfolding ping_packet_def Let_def
    by (auto dest!: bytearray_Inr simp: algebra_simps)
  then show ?thesis by (simp only: checksum_valid_closed)
qed

lemma write_byte_packet_checksum_valid:
  assumes "write_byte_packet motor_id address val = Inr pkt" shows "checksum_valid pkt"
proof -
  have "pkt = 255 # 255 # [motor_id, 4, 3, address, val]
                @ [255 - sum_list [motor_id, 4, 3, address, val] mod 256]"
    using assms unfolding write_byte_packet_def Let_def
    by (auto dest!: bytearray_Inr simp: algebra_simps)
  then show ?thesis by (simp only: checksum_valid_closed)
qed

lemma read_word_packet_checksum_valid:
  assumes "read_word_packet motor_id address len = Inr pkt" shows "checksum_valid pkt"
proof -
  have "pkt = 255 # 255 # [motor_id, 4, 2, address, len]
                @ [255 - sum_list [motor_id, 4, 2, address, len] mod 256]"
    using assms unfolding read_word_packet_def Let_def
    by (auto dest!: bytearray_Inr simp: algebra_simps)
  then show ?thesis by (simp only: checksum_valid_closed)
qed

lemma write_word_packet_checksum_valid:
  assumes "write_word_packet motor_id address val = Inr pkt" shows "checksum_valid pkt"
proof -
  define l where "l = val AND 255"
  define h where "h = drop_bit 8 val AND 255"
  have "pkt = 255 # 255 # [motor_id, 5, 3, address, l, h]
                @ [255 - sum_list [motor_id, 5, 3, address, l, h] mod 256]"
    using assms unfolding write_word_packet_def Let_def l_def[symmetric] h_def[symmetric]
    by (auto dest!: bytearray_Inr simp: algebra_simps)
  then show ?thesis by (simp only: checksum_valid_closed)
qed

lemma protocol1_checksum_valid:
  assumes "protocol1_ping_packet motor_id = Inr pkt" shows "checksum_valid pkt"
proof -
  have ok: "byte_ok motor_id"
    using assms unfolding protocol1_ping_packet_def bytearray_def by (simp split: if_splits)
  from protocol1_bytes[OF ok] ping_packet_bytes[OF ok] assms
  have "ping_packet motor_id = Inr pkt" by simp
  then show ?thesis by (rule ping_packet_checksum_valid)
qed

text \<open>
  \<open>set_position\<close> sums \<open>write_packet[2:-1]\<close> before the checksum is appended, so the
  slice leaves out the last parameter, the high byte of the position.
\<close>

lemma set_position_packet_bytes:
  assumes "byte_ok motor_id"
  shows "set_position_packet motor_id position =
         Inr [255, 255, motor_id, 5, 3, 42, position AND 255, drop_bit 8 position AND 255,
              255 - (motor_id + 5 + 3 + 42 + (position AND 255)) mod 256]"
proof -
  have l: "byte_ok (position AND 255)" "byte_ok (drop_bit 8 position AND 255)"
    unfolding and_255_mod by (rule byte_ok_mod)+
  have b: "bytearray [255, 255, motor_id, 5, 3, 42, position AND 255, drop_bit 8 position AND 255]
        = Inr [255, 255, motor_id, 5, 3, 42, position AND 255, drop_bit 8 position AND 255]"
    unfolding bytearray_def using assms l byte_ok_numerals by simp
  have c: "slice_checksum [255, 255, motor_id, 5, 3, 42, position AND 255, drop_bit 8 position AND 255]
        = 255 - (motor_id + 5 + 3 + 42 + (position AND 255)) mod 256"
    unfolding slice_checksum_def slice_2_to_last_def not_and_255 by (simp add: algebra_simps)
  show ?thesis
    unfolding set_position_packet_def b
    using c byte_ok_closed_checksum[of "motor_id + 5 + 3 + 42 + (position AND 255)"]
    by (simp add: bytearray_append_def)
qed

lemma set_position_packet_checksum:
  assumes "set_position_packet motor_id position = Inr pkt"
  shows "checksum_valid pkt \<longleftrightarrow> drop_bit 8 position AND 255 = 0"
proof -
  have ok: "byte_ok motor_id"
    using assms unfolding set_position_packet_def bytearray_def by (simp split: if_splits)
  define l where "l = position AND 255"
  define h where "h = drop_bit 8 position AND 255"
  define s where "s = motor_id + 5 + 3 + 42 + l"
  have hb: "0 \<le> h" "h < 256" using byte_ok_mod[of "drop_bit 8 position"] unfolding h_def and_255_mod byte_ok_def by simp_all
  have pkt: "pkt = [255, 255, motor_id, 5, 3, 42, l, h, 255 - s mod 256]"
    using set_position_packet_bytes[OF ok, of position] assms unfolding l_def h_def s_def by simp
  have "packet_field_sum pkt = (s + (255 - s mod 256)) + h"
    unfolding pkt packet_field_sum_def s_def by simp
  then have "packet_field_sum pkt mod 256 = (255 + h) mod 256"
    using sum_closed_checksum[of s] by (metis mod_add_left_eq)
  moreover have "(255 + h) mod 256 = 255 \<longleftrightarrow> h = 0"
  proof
    assume a: "(255 + h) mod 256 = 255"
    show "h = 0"
    proof (rule ccontr)
      assume "h \<noteq> 0"
      then have "1 \<le> h" using hb by simp
      then have "255 + h = (h - 1) + 256 * 1" by simp
      then have "(255 + h) mod 256 = (h - 1) mod 256" by (metis mod_mult_self2)
      also have "\<dots> = h - 1" using hb \<open>1 \<le> h\<close> by simp
      finally show False using a hb by simp
    qed
  qed simp
  ultimately show ?thesis unfolding checksum_valid_def h_def by simp
qed


section \<open>Claims about the packets\<close>

text \<open>
  C1. Every packet the scripts build should satisfy
  \<open>(id + length + instruction + sum(params) + checksum) mod 256 = 0xFF\<close>. The packets of
  the closed formula do (lemmas \<open>ping_packet_checksum_valid\<close>,
  \<open>write_byte_packet_checksum_valid\<close>, \<open>write_word_packet_checksum_valid\<close>,
  \<open>read_word_packet_checksum_valid\<close>), the packet of \<open>set_position\<close> does not: for
  motor 1 and its rest position 3014 the bytes sent are FF FF 01 05 03 2A C6 0B 06, whose
  fields sum to 10 modulo 256.
\<close>

theorem set_position_checksum_invalid:
  "set_position True 1 3014 = Some (Inr [0xFF, 0xFF, 1, 0x05, 0x03, 42, 0xC6, 0x0B, 0x06])
   \<and> \<not> checksum_valid [0xFF, 0xFF, 1, 0x05, 0x03, 42, 0xC6, 0x0B, 0x06]"
  by (simp add: set_position_def set_position_packet_def clamp_position_def bytearray_def
      byte_ok_def bytearray_append_def slice_checksum_def slice_2_to_last_def
      checksum_valid_def packet_field_sum_def)

text \<open>
  C4. For every motor id that fits a byte, the ping packet is the six bytes
  \<open>[0xFF, 0xFF, id, 0x02, 0x01, 0xFF - ((id + 0x02 + 0x01) mod 256)]\<close>, and for motor 6
  it is FF FF 06 02 01 F6.
\<close>

theorem ping_packet_shape:
  assumes "0 \<le> motor_id" and "motor_id \<le> 255"
  shows "ping_packet motor_id =
           Inr [0xFF, 0xFF, motor_id, 0x02, 0x01, 0xFF - ((motor_id + 0x02 + 0x01) mod 256)]
         \<and> ping_packet 6 = Inr [0xFF, 0xFF, 0x06, 0x02, 0x01, 0xF6]"
proof
  have "byte_ok motor_id" using assms by (simp add: byte_ok_def)
  then show "ping_packet motor_id =
      Inr [0xFF, 0xFF, motor_id, 0x02, 0x01, 0xFF - ((motor_id + 0x02 + 0x01) mod 256)]"
    by (rule ping_packet_bytes)
next
  have "byte_ok 6" by (simp add: byte_ok_def)
  from ping_packet_bytes[OF this]
  show "ping_packet 6 = Inr [0xFF, 0xFF, 0x06, 0x02, 0x01, 0xF6]" by simp
qed

theorem ping_packet_shape_witness:
  "(0::int) \<le> 1 \<and> (1::int) \<le> 255
   \<and> ping_packet 1 = Inr [0xFF, 0xFF, 0x01, 0x02, 0x01, 0xFB]
   \<and> ping_packet 6 = Inr [0xFF, 0xFF, 0x06, 0x02, 0x01, 0xF6]"
  using ping_packet_shape[of 1] by simp

text \<open>
  C8. For every motor id in 1..6 the ping packet of "Protocol 1 (Alternative format)",
  whose last byte is the complement of the sum of bytes 2 to second-to-last masked to 8
  bits, is the same byte sequence as the "Protocol 0 (Feetech/SCS)" ping packet.
\<close>

theorem protocol1_equals_protocol0:
  assumes "1 \<le> motor_id" and "motor_id \<le> 6"
  shows "\<exists>pkt. protocol1_ping_packet motor_id = Inr pkt \<and> ping_packet motor_id = Inr pkt"
proof -
  have "byte_ok motor_id" using assms by (simp add: byte_ok_def)
  then show ?thesis using protocol1_bytes ping_packet_bytes by simp
qed

theorem protocol1_equals_protocol0_witness:
  "(1::int) \<le> 3 \<and> (3::int) \<le> 6
   \<and> (\<exists>pkt. protocol1_ping_packet 3 = Inr pkt \<and> ping_packet 3 = Inr pkt)"
  using protocol1_equals_protocol0[of 3] by simp

section \<open>Claims about replies and the codec\<close>

lemma reply_ok_iff: "reply_ok motor_id bs \<longleftrightarrow> valid_ping_reply motor_id bs"
proof (cases "6 \<le> length bs")
  case False
  then show ?thesis by (simp add: reply_ok_def valid_ping_reply_def)
next
  case True
  then have "Suc (Suc (Suc 0)) \<le> length bs" by simp
  then obtain a b c rest where "bs = a # b # c # rest"
    by (auto simp: Suc_le_length_iff)
  then show ?thesis using True by (auto simp: reply_ok_def valid_ping_reply_def)
qed

text \<open>
  C2 (as amended). \<open>ping_motor\<close> and the direct-mode follower loop of
  \<open>ping_all_motors\<close> accept a received byte sequence for the queried id exactly when it
  starts with 0xFF 0xFF, its third byte is the queried id and it has at least 6 bytes;
  the simplified check of \<open>test_protocol\<close> reports success for every non-empty reply.
\<close>

theorem ping_reply_recognition:
  "(ping_motor motor_id waiting \<longleftrightarrow> valid_ping_reply motor_id waiting)
   \<and> (ping_all_motors_follower motor_id waiting \<longleftrightarrow> valid_ping_reply motor_id waiting)
   \<and> (test_protocol_success motor_id waiting \<longleftrightarrow> waiting \<noteq> [])"
proof -
  have "valid_ping_reply motor_id waiting \<Longrightarrow> waiting \<noteq> []"
    by (auto simp: valid_ping_reply_def)
  then show ?thesis
    unfolding ping_motor_def ping_all_motors_follower_def test_protocol_success_def Let_def
    using reply_ok_iff[of motor_id waiting] by auto
qed

text \<open>
  C2 as stated fails in \<open>test_protocol\<close>: the single byte 00 received after pinging
  motor 1 is reported as a success, and it is not a valid ping reply.
\<close>

theorem test_protocol_accepts_any_reply:
  "test_protocol_success 1 [0x00] \<and> \<not> valid_ping_reply 1 [0x00]"
  by (simp add: test_protocol_success_def valid_ping_reply_def)

lemma split_join:
  assumes "0 \<le> p" "p < 65536"
  shows "join_word (fst (split_word p)) (snd (split_word p)) = p"
proof -
  have "p div 256 < 256" using assms by simp
  moreover have "0 \<le> p div 256" using assms by simp
  ultimately have "(p div 256) mod 256 = p div 256" by simp
  then show ?thesis
    unfolding join_word_def split_word_def and_255_mod
    by (simp add: drop_bit_eq_div push_bit_eq_mult)
qed

text \<open>
  A word split by \<open>write_word\<close> and carried in the two parameter bytes of a status packet
  for the same motor is the value \<open>read_word\<close> returns.
\<close>

lemma read_word_recovers:
  assumes "0 \<le> p" "p < 65536"
  shows "read_word motor_id
           [0xFF, 0xFF, motor_id, 0x04, err, fst (split_word p), snd (split_word p), c]
         = (p, True)"
  using split_join[OF assms] by (simp add: read_word_def)

lemma encode_Inr:
  assumes "valid_fields motor_id instruction params"
  shows "encode motor_id instruction params =
         Inr ([255, 255, motor_id, int (length params) + 2, instruction] @ params
              @ [255 - (motor_id + (int (length params) + 2) + instruction + sum_list params) mod 256])"
proof -
  have "byte_ok (int (length params) + 2)"
    using assms by (simp add: valid_fields_def byte_ok_def)
  then show ?thesis
    using assms byte_ok_numerals
      byte_ok_closed_checksum[of "motor_id + (int (length params) + 2) + instruction + sum_list params"]
    unfolding encode_def bytearray_def valid_fields_def Let_def
    by simp
qed

lemma decode_encoded:
  "decode motor_id ([255, 255, motor_id, int (length params) + 2, instruction] @ params @ [c])
   = Some (motor_id, instruction, params)"
  unfolding decode_def by simp

text \<open>The packets of the source are instances of \<open>encode\<close>.\<close>

lemma ping_is_encode: "ping_packet motor_id = encode motor_id 0x01 []"
  by (simp add: ping_packet_def encode_def)

lemma write_byte_is_encode: "write_byte_packet motor_id address val = encode motor_id 0x03 [address, val]"
  by (simp add: write_byte_packet_def encode_def algebra_simps)

lemma read_word_is_encode: "read_word_packet motor_id address len = encode motor_id 0x02 [address, len]"
  by (simp add: read_word_packet_def encode_def algebra_simps)

lemma write_word_is_encode:
  "write_word_packet motor_id address val =
     encode motor_id 0x03 [address, fst (split_word val), snd (split_word val)]"
  by (simp add: write_word_packet_def encode_def split_word_def Let_def algebra_simps)

text \<open>
  C3. For all valid (id, instruction, params), decoding the encoded packet gives back the
  id, the instruction and the parameter bytes; and for every position p in [0, 4095],
  splitting p into low and high byte as \<open>write_word\<close> does and reassembling them as
  \<open>read_word\<close> does gives p.
\<close>

theorem codec_round_trip:
  assumes "valid_fields motor_id instruction params" and "0 \<le> p" and "p \<le> 4095"
  shows "(\<exists>pkt. encode motor_id instruction params = Inr pkt
                \<and> decode motor_id pkt = Some (motor_id, instruction, params))
         \<and> join_word (fst (split_word p)) (snd (split_word p)) = p"
proof
  show "\<exists>pkt. encode motor_id instruction params = Inr pkt
                \<and> decode motor_id pkt = Some (motor_id, instruction, params)"
    using encode_Inr[OF assms(1)] decode_encoded by simp
next
  show "join_word (fst (split_word p)) (snd (split_word p)) = p"
    using assms by (intro split_join) simp_all
qed

theorem codec_round_trip_witness:
  "valid_fields 1 3 [42, 0, 8] \<and> (0::int) \<le> 2048 \<and> (2048::int) \<le> 4095
   \<and> (\<exists>pkt. encode 1 3 [42, 0, 8] = Inr pkt \<and> decode 1 pkt = Some (1, 3, [42, 0, 8]))
   \<and> join_word (fst (split_word 2048)) (snd (split_word 2048)) = 2048"
proof -
  have v: "valid_fields 1 3 [42, 0, 8]" by (simp add: valid_fields_def byte_ok_def)
  show ?thesis using v codec_round_trip[OF v, of 2048] by simp
qed

section \<open>Claims about positions\<close>

lemma clamp_position_range: "0 \<le> clamp_position position \<and> clamp_position position \<le> 4095"
  by (simp add: clamp_position_def)

lemma set_position_goal:
  assumes "set_position self_connected motor_id position = Some (Inr pkt)"
  shows "join_word (pkt ! 6) (pkt ! 7) = clamp_position position"
proof -
  have m: "1 \<le> motor_id" "motor_id \<le> 6"
    and p: "set_position_packet motor_id (clamp_position position) = Inr pkt"
    using assms by (auto simp: set_position_def split: if_splits)
  have "byte_ok motor_id" using m by (simp add: byte_ok_def)
  from set_position_packet_bytes[OF this, of "clamp_position position"] p
  have "pkt ! 6 = fst (split_word (clamp_position position))"
       "pkt ! 7 = snd (split_word (clamp_position position))"
    by (auto simp: split_word_def)
  then show ?thesis using split_join[of "clamp_position position"] clamp_position_range[of position]
    by simp
qed

text \<open>
  C5. Every goal position the scripts command is an integer in [0, 4095]: the value
  \<open>set_position\<close> puts on the wire is its clamp, the teleoperation loop sends
  \<open>(int(pos) + offset) mod 4096\<close>, and the SDK fallback sends its clamp; for every input
  position and every offset.
\<close>

theorem goal_position_range:
  "(set_position self_connected motor_id position = Some (Inr pkt) \<longrightarrow>
      join_word (pkt ! 6) (pkt ! 7) = clamp_position position)
   \<and> 0 \<le> clamp_position position \<and> clamp_position position \<le> 4095
   \<and> (\<forall>g \<in> set (follower_positions smoothed_positions position_offsets). 0 \<le> g \<and> g \<le> 4095)
   \<and> 0 \<le> safe_position position \<and> safe_position position \<le> 4095"
proof (intro conjI impI ballI)
  fix g assume "g \<in> set (follower_positions smoothed_positions position_offsets)"
  then obtain pos offset where g: "g = (py_int pos + offset) mod 4096"
    unfolding follower_positions_def by auto
  have "0 \<le> (py_int pos + offset) mod 4096" "(py_int pos + offset) mod 4096 < 4096" by simp_all
  then show "0 \<le> g" "g \<le> 4095" unfolding g by linarith+
qed (simp_all add: set_position_goal clamp_position_range safe_position_def)

theorem goal_position_range_witness:
  "set_position True 1 5000 = Some (Inr [0xFF, 0xFF, 1, 5, 3, 42, 0xFF, 0x0F, 0xCD])
   \<and> join_word 0xFF 0x0F = clamp_position 5000
   \<and> clamp_position 5000 = 4095
   \<and> follower_positions [2052.8, -3.5] [-4, 1] = [2048, 4094]
   \<and> 4094 \<in> set (follower_positions [2052.8, -3.5] [-4, 1])
   \<and> safe_position 5000 = 4095"
proof -
  have a: "set_position True 1 5000 = Some (Inr [0xFF, 0xFF, 1, 5, 3, 42, 0xFF, 0x0F, 0xCD])"
    by (simp add: set_position_def set_position_packet_def clamp_position_def bytearray_def
        byte_ok_def bytearray_append_def slice_checksum_def slice_2_to_last_def)
  have b: "follower_positions [2052.8, -3.5] [-4, 1] = [2048, 4094]"
    by (simp add: follower_positions_def py_int_def)
  have c: "clamp_position 5000 = 4095" "safe_position 5000 = 4095"
    by (simp_all add: clamp_position_def safe_position_def)
  from goal_position_range[of True 1 5000 "[0xFF, 0xFF, 1, 5, 3, 42, 0xFF, 0x0F, 0xCD]"
      "[2052.8, -3.5]" "[-4, 1]"] a b c
  show ?thesis by simp
qed

text \<open>
  C9. \<open>check_joint_limits\<close> returns True only if the target lies in [0, 4095] and is at
  most 1024 steps from the present position just read, and returns False whenever reading
  the present position fails.
\<close>

theorem check_joint_limits_safe:
  "(check_joint_limits present_position present_load target_position \<longrightarrow>
      (\<exists>current_pos. present_position = Inr current_pos
         \<and> 0 \<le> target_position \<and> target_position \<le> 4095
         \<and> \<bar>current_pos - target_position\<bar> \<le> 1024))
   \<and> \<not> check_joint_limits (Inl e) present_load target_position"
  by (auto simp: check_joint_limits_def Let_def split: sum.splits if_splits)

theorem check_joint_limits_safe_witness:
  "check_joint_limits (Inr 2048) (Inr 10) 2130
   \<and> (\<exists>current_pos. (Inr 2048 :: error + int) = Inr current_pos
         \<and> (0::int) \<le> 2130 \<and> (2130::int) \<le> 4095
         \<and> \<bar>current_pos - 2130\<bar> \<le> 1024)
   \<and> \<not> check_joint_limits (Inl CommException) (Inr 10) 2130"
proof -
  have a: "check_joint_limits (Inr 2048) (Inr 10) 2130" by (simp add: check_joint_limits_def)
  show ?thesis
    using a check_joint_limits_safe[of "Inr 2048" "Inr 10" 2130 CommException] by simp
qed

lemma read_leader_step_fst:
  "fst (read_leader_step C r g st motor_id) = fst st @ [leader_entry C r motor_id]"
  by (cases st) (simp add: read_leader_step_def leader_entry_def split: sdk_read.splits sum.splits)

lemma read_leader_foldl:
  "fst (foldl (read_leader_step C r g) st ids) = fst st @ map (leader_entry C r) ids"
proof (induction ids arbitrary: st)
  case Nil
  then show ?case by simp
next
  case (Cons a ids)
  show ?case by (simp add: Cons.IH read_leader_step_fst)
qed

lemma read_leader_positions_map:
  "read_leader_positions C r g = map (leader_entry C r) MOTOR_IDS"
  by (simp add: read_leader_positions_def read_leader_foldl)

text \<open>
  C10. \<open>read_leader_positions\<close> always returns exactly 6 entries, one per configured motor
  id and in the order of the ids; a read that raises, or that returns a result other than
  \<open>COMM_SUCCESS\<close>, contributes the centre value 2048.
\<close>

theorem read_leader_positions_total:
  "length (read_leader_positions COMM_SUCCESS read2ByteTxRx getTxRxResult) = 6
   \<and> (\<forall>i < 6.
        (case read2ByteTxRx (MOTOR_IDS ! i) of
           Raises \<Rightarrow> read_leader_positions COMM_SUCCESS read2ByteTxRx getTxRxResult ! i = 2048
         | Returns position result \<Rightarrow>
             read_leader_positions COMM_SUCCESS read2ByteTxRx getTxRxResult ! i =
               (if result = COMM_SUCCESS then position else 2048)))"
proof -
  have len: "length MOTOR_IDS = 6" by (simp add: MOTOR_IDS_def)
  have "\<And>i. i < 6 \<Longrightarrow> read_leader_positions COMM_SUCCESS read2ByteTxRx getTxRxResult ! i
          = leader_entry COMM_SUCCESS read2ByteTxRx (MOTOR_IDS ! i)"
    unfolding read_leader_positions_map using len by simp
  then show ?thesis
    using len by (auto simp: read_leader_positions_map leader_entry_def split: sdk_read.splits)
qed

theorem read_leader_positions_total_witness:
  "length (read_leader_positions 0
             (\<lambda>m. if m = 2 then Raises else if m = 3 then Returns 77 (-1) else Returns (1000 + m) 0)
             (\<lambda>r. Inr ''timeout'')) = 6
   \<and> (1::nat) < 6
   \<and> read_leader_positions 0
        (\<lambda>m. if m = 2 then Raises else if m = 3 then Returns 77 (-1) else Returns (1000 + m) 0)
        (\<lambda>r. Inr ''timeout'') ! 1 = 2048
   \<and> read_leader_positions 0
        (\<lambda>m. if m = 2 then Raises else if m = 3 then Returns 77 (-1) else Returns (1000 + m) 0)
        (\<lambda>r. Inr ''timeout'') = [1001, 2048, 2048, 1004, 1005, 1006]"
proof -
  have "read_leader_positions 0
        (\<lambda>m. if m = 2 then Raises else if m = 3 then Returns 77 (-1) else Returns (1000 + m) 0)
        (\<lambda>r. Inr ''timeout'') = [1001, 2048, 2048, 1004, 1005, 1006]"
    by (simp add: read_leader_positions_def read_leader_step_def MOTOR_IDS_def)
  with read_leader_positions_total[of 0
        "\<lambda>m. if m = 2 then Raises else if m = 3 then Returns 77 (-1) else Returns (1000 + m) 0"
        "\<lambda>r. Inr ''timeout''"]
  show ?thesis by simp
qed

section \<open>The lock discipline\<close>

lemma monitor_keyboard_input_guarded:
  "lock_guarded False (fst (monitor_keyboard_input_iteration k g))"
  by (cases k) simp_all

lemma main_loop_iteration_guarded_iff:
  "lock_guarded False (main_loop_iteration at_602 position_changed at_633)
   \<longleftrightarrow> DEBUG_MODE at_633"
  by (simp add: main_loop_iteration_def Let_def)

text \<open>
  C7. Every access to \<open>teleoperation_active\<close> should happen under the lock. The keyboard
  thread keeps to that (\<open>monitor_keyboard_input_guarded\<close>); the loop of \<open>main\<close> copies the
  flag under the lock and then, with \<open>DEBUG_MODE\<close> off as it is initially, reads the
  global again in its last condition after the lock is released.
\<close>

theorem main_loop_reads_flag_unlocked:
  "main_loop_iteration \<lparr>teleoperation_active = True, DEBUG_MODE = False\<rparr> False
                       \<lparr>teleoperation_active = True, DEBUG_MODE = False\<rparr>
     = [Acquire, ReadActive, Release, Call ''read_leader_positions'', ReadDebug, ReadActive,
        Call ''print_status'']
   \<and> \<not> lock_guarded False
         (main_loop_iteration \<lparr>teleoperation_active = True, DEBUG_MODE = False\<rparr> False
                              \<lparr>teleoperation_active = True, DEBUG_MODE = False\<rparr>)"
  by (simp add: main_loop_iteration_def)

section \<open>Rounding to a double\<close>

lemma round_half_even_error: "\<bar>of_int (round_half_even y) - y\<bar> \<le> 1/2"
proof -
  define f where "f = \<lfloor>y\<rfloor>"
  define d where "d = y - of_int f"
  define r where "r = round_half_even y"
  have d: "0 \<le> d" "d < 1" unfolding d_def f_def by linarith+
  have y: "y = of_int f + d" by (simp add: d_def)
  have r: "r = (if d < 1/2 then f else if 1/2 < d then f + 1 else if even f then f else f + 1)"
    unfolding r_def round_half_even_def f_def[symmetric] d_def[symmetric] Let_def ..
  consider "d < 1/2" | "1/2 < d" | "d = 1/2" by linarith
  then have "\<bar>of_int r - y\<bar> \<le> 1/2"
  proof cases
    case 1
    then have "r = f" using r by simp
    then show ?thesis using d 1 y by simp
  next
    case 2
    then have "r = f + 1" using r by simp
    then show ?thesis using d 2 y by simp
  next
    case 3
    then have "r = f \<or> r = f + 1" using r by simp
    then show ?thesis using 3 y by auto
  qed
  then show ?thesis unfolding r_def .
qed

lemma bitlen_eqI:
  assumes "2 ^ m \<le> n" "n < 2 ^ Suc m"
  shows "bitlen n = int (Suc m)"
proof (rule antisym)
  have "nat (int (Suc m)) = Suc m" by (rule nat_int)
  then show "bitlen n \<le> int (Suc m)"
    using assms(2) bitlen_le_iff_power[of n "int (Suc m)"] by (simp del: of_nat_Suc)
  have "nat (int (Suc m)) - 1 = m" by simp
  then show "int (Suc m) \<le> bitlen n"
    using assms(1) bitlen_ge_iff_power[of "int (Suc m)" n] by (simp del: of_nat_Suc)
qed

lemma denorm_scale_pos: "0 < denorm_scale"
  unfolding denorm_scale_def by (rule zero_less_power) simp

lemma fl_unfold:
  "fl x = of_int (round_half_even (x * denorm_scale / 2 ^ k)) * 2 ^ k / denorm_scale"
  if "k = nat (bitlen \<lfloor>\<bar>x * denorm_scale\<bar>\<rfloor> - 53)"
  using that by (simp add: fl_def Let_def)

lemma fl_error_ulp:
  "\<bar>fl x - x\<bar> \<le> 2 ^ nat (bitlen \<lfloor>\<bar>x * denorm_scale\<bar>\<rfloor> - 53) / (2 * denorm_scale)"
proof -
  define k where "k = nat (bitlen \<lfloor>\<bar>x * denorm_scale\<bar>\<rfloor> - 53)"
  define y where "y = x * denorm_scale / 2 ^ k"
  define u :: real where "u = 2 ^ k / denorm_scale"
  have u: "0 < u" unfolding u_def using denorm_scale_pos by simp
  have x: "x = y * u" using denorm_scale_pos by (simp add: y_def u_def)
  have flx: "fl x = of_int (round_half_even y) * u"
    unfolding fl_unfold[OF k_def] y_def[symmetric] u_def by simp
  have "fl x - x = of_int (round_half_even y) * u - y * u"
    unfolding flx by (rule arg_cong[where f = "\<lambda>t. of_int (round_half_even y) * u - t", OF x])
  also have "\<dots> = (of_int (round_half_even y) - y) * u"
    by (simp add: algebra_simps)
  finally have "\<bar>fl x - x\<bar> = \<bar>of_int (round_half_even y) - y\<bar> * u"
    using u by (simp add: abs_mult)
  also have "\<dots> \<le> 1/2 * u"
    using u by (intro mult_right_mono round_half_even_error) simp
  also have "\<dots> = 2 ^ k / (2 * denorm_scale)" by (simp add: u_def)
  finally show ?thesis unfolding k_def .
qed

lemma ulp_bound:
  "2 ^ nat (bitlen \<lfloor>\<bar>y\<bar>\<rfloor> - 53) \<le> max (\<bar>y\<bar> / 2 ^ 52) (1::real)"
proof (cases "bitlen \<lfloor>\<bar>y\<bar>\<rfloor> \<le> 53")
  case True
  then show ?thesis by simp
next
  case False
  define n where "n = \<lfloor>\<bar>y\<bar>\<rfloor>"
  define k where "k = nat (bitlen n - 53)"
  have b: "bitlen n = 53 + int k" using False by (simp add: k_def n_def)
  then have npos: "0 < n" using bitlen_eq_zero_iff[of n] by (cases "0 < n") auto
  from bitlen_bounds[OF npos] have "2 ^ nat (bitlen n - 1) \<le> n" by simp
  moreover have "nat (bitlen n - 1) = 52 + k" using b by simp
  ultimately have "(2::int) ^ (52 + k) \<le> n" by simp
  then have "(2::real) ^ (52 + k) \<le> of_int n" by (metis of_int_le_iff of_int_numeral of_int_power)
  also have "\<dots> \<le> \<bar>y\<bar>" unfolding n_def by linarith
  finally have "(2::real) ^ k * 2 ^ 52 \<le> \<bar>y\<bar>" by (simp only: power_add mult.commute)
  then have "(2::real) ^ k \<le> \<bar>y\<bar> / 2 ^ 52" by (simp only: pos_le_divide_eq zero_less_power zero_less_numeral)
  then show ?thesis unfolding k_def n_def by (simp only: max.coboundedI1)
qed

lemma max_divide_pos: "0 < (c::real) \<Longrightarrow> max a b / c = max (a / c) (b / c)"
  by (auto simp: max_def divide_le_cancel)

lemma fl_error: "\<bar>fl x - x\<bar> \<le> max (\<bar>x\<bar> / 2 ^ 53) (1 / (2 * denorm_scale))"
proof -
  have s: "0 < 2 * denorm_scale" using denorm_scale_pos by simp
  have "\<bar>fl x - x\<bar> \<le> 2 ^ nat (bitlen \<lfloor>\<bar>x * denorm_scale\<bar>\<rfloor> - 53) / (2 * denorm_scale)"
    by (rule fl_error_ulp)
  also have "\<dots> \<le> max (\<bar>x * denorm_scale\<bar> / 2 ^ 52) 1 / (2 * denorm_scale)"
    using s by (intro divide_right_mono ulp_bound) simp
  also have "\<dots> = max (\<bar>x * denorm_scale\<bar> / 2 ^ 52 / (2 * denorm_scale)) (1 / (2 * denorm_scale))"
    by (rule max_divide_pos[OF s])
  also have "\<bar>x * denorm_scale\<bar> / 2 ^ 52 / (2 * denorm_scale) = \<bar>x\<bar> / 2 ^ 53"
    using denorm_scale_pos by (simp add: abs_mult)
  finally show ?thesis .
qed

lemma fl_error_small:
  assumes "\<bar>x\<bar> \<le> 2 ^ 18"
  shows "\<bar>fl x - x\<bar> \<le> 1 / 2 ^ 35"
proof -
  have "\<bar>x\<bar> / 2 ^ 53 \<le> 2 ^ 18 / 2 ^ 53" using assms by (intro divide_right_mono) simp_all
  also have "\<dots> = (1::real) / 2 ^ 35" by simp
  finally have a: "\<bar>x\<bar> / 2 ^ 53 \<le> 1 / 2 ^ 35" .
  have "(2::real) ^ 34 \<le> 2 ^ 1074" by (rule power_increasing) simp_all
  then have "(2::real) ^ 35 \<le> 2 * denorm_scale" unfolding denorm_scale_def by simp
  then have b: "1 / (2 * denorm_scale) \<le> 1 / 2 ^ 35"
    by (intro divide_left_mono) (simp_all add: denorm_scale_pos)
  show ?thesis using fl_error[of x] a b by linarith
qed

text \<open>Evaluating \<open>fl\<close> on a value in the normal range below \<open>2 ^ 53\<close>.\<close>

lemma fl_eval:
  assumes lo: "2 ^ 52 \<le> \<bar>x\<bar> * 2 ^ j" and hi: "\<bar>x\<bar> * 2 ^ j < 2 ^ 53" and j: "j \<le> 1074"
    and m: "round_half_even (x * 2 ^ j) = m"
  shows "fl x = of_int m / 2 ^ j"
proof -
  define k where "k = 1074 - j"
  have S: "denorm_scale = 2 ^ j * 2 ^ k"
    unfolding denorm_scale_def k_def using j by (simp only: power_add[symmetric]) simp
  define n where "n = \<lfloor>\<bar>x * denorm_scale\<bar>\<rfloor>"
  have y: "\<bar>x * denorm_scale\<bar> = \<bar>x\<bar> * 2 ^ j * 2 ^ k"
    unfolding S by (simp add: abs_mult)
  have "(2::real) ^ (52 + k) \<le> \<bar>x * denorm_scale\<bar>"
    unfolding y power_add by (intro mult_right_mono lo) simp
  then have "of_int (2 ^ (52 + k)) \<le> \<bar>x * denorm_scale\<bar>" by simp
  then have n_lo: "2 ^ (52 + k) \<le> n" unfolding n_def by (simp only: le_floor_iff)
  have "\<bar>x * denorm_scale\<bar> < 2 ^ 53 * 2 ^ k"
    unfolding y by (intro mult_strict_right_mono hi) simp
  then have "\<bar>x * denorm_scale\<bar> < of_int (2 ^ Suc (52 + k))" by (simp add: power_add)
  then have n_hi: "n < 2 ^ Suc (52 + k)" unfolding n_def by (simp only: floor_less_iff)
  have "bitlen n = int (Suc (52 + k))" by (rule bitlen_eqI[OF n_lo n_hi])
  then have k: "k = nat (bitlen \<lfloor>\<bar>x * denorm_scale\<bar>\<rfloor> - 53)" unfolding n_def by simp
  have "x * denorm_scale / 2 ^ k = x * 2 ^ j" unfolding S by simp
  then have "fl x = of_int m * 2 ^ k / denorm_scale"
    unfolding fl_unfold[OF k] using m by simp
  also have "\<dots> = of_int m / 2 ^ j" unfolding S by simp
  finally show ?thesis .
qed

lemma fl_02: "fl (2/10) = 3602879701896397 / 2 ^ 54"
proof -
  have "fl (2/10) = of_int 7205759403792794 / 2 ^ 55"
    by (rule fl_eval) (simp_all add: round_half_even_def)
  then show ?thesis by simp
qed

lemma fl_08: "fl (1 - 3602879701896397 / 2 ^ 54) = 3602879701896397 / 2 ^ 52"
proof -
  have "fl (1 - 3602879701896397 / 2 ^ 54) = of_int 7205759403792794 / 2 ^ 53"
    by (rule fl_eval) (simp_all add: round_half_even_def)
  then show ?thesis by simp
qed

lemma fl_03: "fl (3/10) = 5404319552844595 / 2 ^ 54"
proof -
  have "fl (3/10) = of_int 5404319552844595 / 2 ^ 54"
    by (rule fl_eval) (simp_all add: round_half_even_def)
  then show ?thesis by simp
qed

lemma fl_07: "fl (1 - 5404319552844595 / 2 ^ 54) = 3152519739159347 / 2 ^ 52"
proof -
  have "fl (1 - 5404319552844595 / 2 ^ 54) = of_int 6305039478318694 / 2 ^ 53"
    by (rule fl_eval) (simp_all add: round_half_even_def)
  then show ?thesis by simp
qed

lemma fl_3: "fl (of_int 3) = 3"
proof -
  have "fl (of_int 3) = of_int 6755399441055744 / 2 ^ 51"
    by (rule fl_eval) (simp_all add: round_half_even_def)
  then show ?thesis by simp
qed

lemma smooth_02_3_3: "smooth (2/10) 3 3 = 3 + 1 / 2 ^ 51"
proof -
  have p1: "fl (3602879701896397 / 2 ^ 54 * 3) = 1351079888211149 / 2 ^ 51"
  proof -
    have "fl (3602879701896397 / 2 ^ 54 * 3) = of_int 5404319552844596 / 2 ^ 53"
      by (rule fl_eval) (simp_all add: round_half_even_def)
    then show ?thesis by simp
  qed
  have p2: "fl (3602879701896397 / 2 ^ 52 * 3) = 1351079888211149 / 2 ^ 49"
  proof -
    have "fl (3602879701896397 / 2 ^ 52 * 3) = of_int 5404319552844596 / 2 ^ 51"
      by (rule fl_eval) (simp_all add: round_half_even_def)
    then show ?thesis by simp
  qed
  have r: "fl (1351079888211149 / 2 ^ 51 + 1351079888211149 / 2 ^ 49) = 3 + 1 / 2 ^ 51"
  proof -
    have "fl (1351079888211149 / 2 ^ 51 + 1351079888211149 / 2 ^ 49)
          = of_int 6755399441055745 / 2 ^ 51"
      by (rule fl_eval) (simp_all add: round_half_even_def)
    then show ?thesis by simp
  qed
  show ?thesis
    unfolding smooth_def Let_def fl_02 fl_3 p1 fl_08 p2 r ..
qed

lemma smooth_03_3_3: "smooth (3/10) 3 3 = 3 - 1 / 2 ^ 51"
proof -
  have p1: "fl (5404319552844595 / 2 ^ 54 * 3) = 2026619832316723 / 2 ^ 51"
  proof -
    have "fl (5404319552844595 / 2 ^ 54 * 3) = of_int 8106479329266892 / 2 ^ 53"
      by (rule fl_eval) (simp_all add: round_half_even_def)
    then show ?thesis by simp
  qed
  have p2: "fl (3152519739159347 / 2 ^ 52 * 3) = 1182194902184755 / 2 ^ 49"
  proof -
    have "fl (3152519739159347 / 2 ^ 52 * 3) = of_int 4728779608739020 / 2 ^ 51"
      by (rule fl_eval) (simp_all add: round_half_even_def)
    then show ?thesis by simp
  qed
  have r: "fl (2026619832316723 / 2 ^ 51 + 1182194902184755 / 2 ^ 49) = 3 - 1 / 2 ^ 51"
  proof -
    have "fl (2026619832316723 / 2 ^ 51 + 1182194902184755 / 2 ^ 49)
          = of_int 6755399441055743 / 2 ^ 51"
      by (rule fl_eval) (simp_all add: round_half_even_def)
    then show ?thesis by simp
  qed
  show ?thesis
    unfolding smooth_def Let_def fl_03 fl_3 p1 fl_07 p2 r ..
qed

lemma smooth_error:
  assumes a: "0 \<le> a" "a \<le> 1" and b: "0 \<le> b" "b \<le> 1"
    and c: "0 \<le> c" "c \<le> 65535" and s: "0 \<le> s" "s \<le> 65536"
  shows "\<bar>fl (fl (a * fl (of_int c)) + fl (b * s)) - (a * of_int c + b * s)\<bar> \<le> 1 / 2 ^ 33"
proof -
  define c' where "c' = fl (of_int c)"
  define p1 where "p1 = fl (a * c')"
  define p2 where "p2 = fl (b * s)"
  define e :: real where "e = 1 / 2 ^ 35"
  have e: "0 < e" "e \<le> 1" "4 * e = 1 / 2 ^ 33" "(2::real) ^ 18 = 262144" by (simp_all add: e_def)
  have small: "\<bar>fl x - x\<bar> \<le> e" if "\<bar>x\<bar> \<le> 262144" for x
    unfolding e_def using that by (intro fl_error_small) simp
  have cr: "0 \<le> real_of_int c" "real_of_int c \<le> 65535" using c by simp_all
  have e0: "\<bar>c' - of_int c\<bar> \<le> e"
    unfolding c'_def using cr by (intro small) simp
  then have c'_bound: "\<bar>c'\<bar> \<le> 65536" using cr e by linarith
  have "\<bar>a * c'\<bar> = a * \<bar>c'\<bar>" using a by (simp add: abs_mult)
  also have "\<dots> \<le> 1 * \<bar>c'\<bar>" using a by (intro mult_right_mono) simp_all
  finally have ac'_bound: "\<bar>a * c'\<bar> \<le> 65536" using c'_bound by simp
  have e1: "\<bar>p1 - a * c'\<bar> \<le> e"
    unfolding p1_def using ac'_bound by (intro small) simp
  have "\<bar>a * c' - a * of_int c\<bar> = a * \<bar>c' - of_int c\<bar>"
    using a by (simp add: abs_mult right_diff_distrib[symmetric])
  also have "\<dots> \<le> 1 * \<bar>c' - of_int c\<bar>" using a by (intro mult_right_mono) simp_all
  finally have e1': "\<bar>a * c' - a * of_int c\<bar> \<le> e" using e0 by simp
  have "b * s \<le> 1 * s" using b s by (intro mult_right_mono) simp_all
  moreover have "0 \<le> b * s" using b s by simp
  ultimately have bs_bound: "\<bar>b * s\<bar> \<le> 65536" using s by simp
  have e2: "\<bar>p2 - b * s\<bar> \<le> e"
    unfolding p2_def using bs_bound by (intro small) simp
  have "\<bar>p1 + p2\<bar> \<le> 262144" using e1 e2 ac'_bound bs_bound e by linarith
  then have e3: "\<bar>fl (p1 + p2) - (p1 + p2)\<bar> \<le> e" by (rule small)
  have "\<bar>fl (p1 + p2) - (a * of_int c + b * s)\<bar> \<le> 4 * e"
    using e1 e1' e2 e3 by linarith
  then show ?thesis unfolding p1_def p2_def c'_def e(3) .
qed

lemma convex_bounds:
  fixes a b x y :: real
  assumes a: "0 \<le> a" and b: "0 \<le> b" and ab: "\<bar>a + b - 1\<bar> \<le> 1 / 2 ^ 53"
    and x: "0 \<le> x" "x \<le> 65536" and y: "0 \<le> y" "y \<le> 65536"
  shows "min x y - 1 / 2 ^ 37 \<le> a * x + b * y" "a * x + b * y \<le> max x y + 1 / 2 ^ 37"
proof -
  define m where "m = min x y"
  define M where "M = max x y"
  define d :: real where "d = 1 / 2 ^ 37"
  have d: "1 / 2 ^ 53 * 65536 = d" by (simp add: d_def)
  have m: "0 \<le> m" "m \<le> x" "m \<le> y" "m \<le> 65536" unfolding m_def using x y by simp_all
  have M: "0 \<le> M" "x \<le> M" "y \<le> M" "M \<le> 65536" unfolding M_def using x y by simp_all
  have "a * m \<le> a * x" "b * m \<le> b * y" using a b m by (simp_all add: mult_left_mono)
  then have lo: "(a + b) * m \<le> a * x + b * y" by (simp add: distrib_right)
  have "a * x \<le> a * M" "b * y \<le> b * M" using a b M by (simp_all add: mult_left_mono)
  then have hi: "a * x + b * y \<le> (a + b) * M" by (simp add: distrib_right)
  have "\<bar>(a + b - 1) * m\<bar> = \<bar>a + b - 1\<bar> * m" using m by (simp add: abs_mult)
  also have "\<dots> \<le> 1 / 2 ^ 53 * 65536"
    using ab m by (intro mult_mono) simp_all
  finally have "\<bar>(a + b) * m - m\<bar> \<le> d" unfolding d by (simp add: left_diff_distrib)
  then have "m - d \<le> a * x + b * y" using lo by linarith
  then show "min x y - 1 / 2 ^ 37 \<le> a * x + b * y" unfolding m_def d_def .
  have "\<bar>(a + b - 1) * M\<bar> = \<bar>a + b - 1\<bar> * M" using M by (simp add: abs_mult)
  also have "\<dots> \<le> 1 / 2 ^ 53 * 65536"
    using ab M by (intro mult_mono) simp_all
  finally have "\<bar>(a + b) * M - M\<bar> \<le> d" unfolding d by (simp add: left_diff_distrib)
  then have "a * x + b * y \<le> M + d" using hi by linarith
  then show "a * x + b * y \<le> max x y + 1 / 2 ^ 37" unfolding M_def d_def .
qed

lemma smooth_bounds_consts:
  assumes fa: "fl alpha = a" and fb: "fl (1 - a) = b"
    and a: "0 \<le> a" "a \<le> 1" and b: "0 \<le> b" "b \<le> 1" and ab: "\<bar>a + b - 1\<bar> \<le> 1 / 2 ^ 53"
    and c: "0 \<le> current" "current \<le> 65535" and s: "0 \<le> smoothed" "smoothed \<le> 65536"
  shows "min (of_int current) smoothed - 1 / 2 ^ 32 \<le> smooth alpha current smoothed
         \<and> smooth alpha current smoothed \<le> max (of_int current) smoothed + 1 / 2 ^ 32"
proof -
  have sm: "smooth alpha current smoothed = fl (fl (a * fl (of_int current)) + fl (b * smoothed))"
    unfolding smooth_def Let_def fa fb ..
  have cr: "0 \<le> real_of_int current" "real_of_int current \<le> 65536" using c by simp_all
  note e = smooth_error[OF a b c s]
  note cb = convex_bounds[OF a(1) b(1) ab cr s]
  have n: "(1::real) / 2 ^ 33 + 1 / 2 ^ 37 \<le> 1 / 2 ^ 32" by simp
  show ?thesis unfolding sm using e cb n by linarith
qed

lemma smooth_positions_nth:
  assumes "i < length leader_positions" and "i < length smoothed_positions"
  shows "smooth_positions alpha leader_positions smoothed_positions ! i
         = smooth alpha (leader_positions ! i) (smoothed_positions ! i)"
  using assms by (simp add: smooth_positions_def)

lemma teleoperation_sends_2_for_3: "py_int (smooth (3/10) 3 3) = 2"
  unfolding smooth_03_3_3 py_int_def by simp

section \<open>Claims about the smoothing\<close>

text \<open>
  C6 (as amended). Each smoothed position is updated to
  \<open>alpha * current + (1 - alpha) * previous\<close> evaluated in double precision, with alpha
  the double nearest 0.2 or 0.3, which lies strictly between 0 and 1. For a reading in
  [0, 65535] and a previous value in [0, 65536] the new value lies between the previous
  value and the reading up to rounding: it is at least their minimum minus \<open>2 ^ -32\<close> and
  at most their maximum plus \<open>2 ^ -32\<close>.
\<close>

theorem smoothing_between_up_to_rounding:
  assumes "alpha = 0.2 \<or> alpha = 0.3"
    and "0 \<le> current" "current \<le> 65535" and "0 \<le> smoothed" "smoothed \<le> 65536"
  shows "0 < fl alpha \<and> fl alpha < 1
         \<and> min (of_int current) smoothed - 1 / 2 ^ 32 \<le> smooth alpha current smoothed
         \<and> smooth alpha current smoothed \<le> max (of_int current) smoothed + 1 / 2 ^ 32"
  using assms(1)
proof
  assume al: "alpha = 0.2"
  have fa: "fl alpha = 3602879701896397 / 2 ^ 54" unfolding al using fl_02 by simp
  show ?thesis
    using smooth_bounds_consts[OF fa fl_08 _ _ _ _ _ assms(2-5)] fa by simp
next
  assume al: "alpha = 0.3"
  have fa: "fl alpha = 5404319552844595 / 2 ^ 54" unfolding al using fl_03 by simp
  show ?thesis
    using smooth_bounds_consts[OF fa fl_07 _ _ _ _ _ assms(2-5)] fa by simp
qed

theorem smoothing_between_up_to_rounding_witness:
  "(0::int) \<le> 3 \<and> (3::int) \<le> 65535 \<and> (0::real) \<le> 3 \<and> (3::real) \<le> 65536
   \<and> 0 < fl 0.2 \<and> fl 0.2 < 1
   \<and> min (of_int 3) 3 - 1 / 2 ^ 32 \<le> smooth 0.2 3 3
   \<and> smooth 0.2 3 3 \<le> max (of_int 3) 3 + 1 / 2 ^ 32"
  using smoothing_between_up_to_rounding[of "0.2" 3 3] by simp

text \<open>
  C6 as stated fails: with alpha = 0.2, a reading of 3 and a previous value of 3.0 give
  \<open>3 + 2 ^ -51\<close> (Python prints 3.0000000000000004), which is not between 3 and 3.
\<close>

theorem smoothing_overshoots:
  "smooth 0.2 3 3 = 3 + 1 / 2 ^ 51
   \<and> \<not> (min (of_int 3) 3 \<le> smooth 0.2 3 3 \<and> smooth 0.2 3 3 \<le> max (of_int 3) 3)"
  using smooth_02_3_3 by simp

end
